theory Spec2Isabelle
  imports Main "HOL-Library.Sublist"
begin

section \<open>Values, errors and panics\<close>

text \<open>
  The model follows \<^verbatim>\<open>src/config/config.go\<close>. A Go string is a list of
  bytes (\<^typ>\<open>string\<close>); an \<^verbatim>\<open>error\<close> value is represented by its message and
  a nil error by \<^term>\<open>None\<close>.
\<close>

type_synonym goerror = string

text \<open>
  A call either returns or panics. The panics of the file are the explicit
  \<^verbatim>\<open>panic(fmt.Sprintf(...))\<close> with a message, the explicit \<^verbatim>\<open>panic(err)\<close>
  with an error value, and two run-time panics of the language that the code can meet:
  a failed single-value type assertion and a nil pointer dereference.
\<close>

datatype panic =
    PanicMsg string
  | PanicErr goerror
  | TypeAssertion
  | NilDereference

datatype 'a outcome = Returned 'a | Panicked panic

fun isPanic :: "'a outcome \<Rightarrow> bool" where
  "isPanic (Panicked p) = True"
| "isPanic (Returned x) = False"

text \<open>Sequencing: a panic in the first step skips the rest.\<close>

fun andThen :: "'a outcome \<Rightarrow> ('a \<Rightarrow> 'b outcome) \<Rightarrow> 'b outcome" where
  "andThen (Panicked p) f = Panicked p"
| "andThen (Returned x) f = f x"

text \<open>
  The dynamically typed values (\<^verbatim>\<open>interface{}\<close>) the settings backend hands out.
  \<open>VStrMap\<close> is \<^verbatim>\<open>map[string]interface{}\<close>, \<open>VIfaceMap\<close> is
  \<^verbatim>\<open>map[interface{}]interface{}\<close>; maps are association lists, looked up with
  \<^const>\<open>map_of\<close>. \<open>VOther\<close> stands for every dynamic type the code never asserts
  (floats, slices, ...).
\<close>

datatype iface =
    VNil
  | VStr string
  | VInt int
  | VBool bool
  | VStrMap "(string \<times> iface) list"
  | VIfaceMap "(iface \<times> iface) list"
  | VOther

text \<open>Indexing a map: the zero value (a nil interface) when the key is absent.\<close>

definition index :: "('k \<times> iface) list \<Rightarrow> 'k \<Rightarrow> iface" where
  "index m k = (case map_of m k of None \<Rightarrow> VNil | Some v \<Rightarrow> v)"

text \<open>
  The two-value type assertions \<^verbatim>\<open>x, _ = v.(string)\<close> and
  \<^verbatim>\<open>x, _ = v.(int)\<close>: the zero value when the dynamic type differs.
\<close>

fun asString :: "iface \<Rightarrow> string" where
  "asString (VStr s) = s"
| "asString v = []"

fun asInt :: "iface \<Rightarrow> int" where
  "asInt (VInt i) = i"
| "asInt v = 0"

text \<open>
  The single-value type assertions \<^verbatim>\<open>v.(map[string]interface{})\<close> and
  \<^verbatim>\<open>v.(map[interface{}]interface{})\<close>: a run-time panic when the dynamic type
  differs, also for a nil interface.
\<close>

fun assertStrMap :: "iface \<Rightarrow> (string \<times> iface) list outcome" where
  "assertStrMap (VStrMap m) = Returned m"
| "assertStrMap v = Panicked TypeAssertion"

fun assertIfaceMap :: "iface \<Rightarrow> (iface \<times> iface) list outcome" where
  "assertIfaceMap (VIfaceMap m) = Returned m"
| "assertIfaceMap v = Panicked TypeAssertion"

section \<open>Library functions the code calls\<close>

text \<open>
  \<^verbatim>\<open>strconv.Itoa\<close>: the decimal form of an integer, digits taken from a table,
  with a minus sign for a negative number.
\<close>

definition digitTable :: string where
  "digitTable = ''0123456789''"

function formatNat :: "nat \<Rightarrow> string" where
  "formatNat n = (if n < 10 then [digitTable ! n]
                  else formatNat (n div 10) @ [digitTable ! (n mod 10)])"
  by pat_completeness auto
termination
  by (relation "measure (\<lambda>n. n)") auto

declare formatNat.simps [simp del]

definition Itoa :: "int \<Rightarrow> string" where
  "Itoa i = (if i < 0 then CHR ''-'' # formatNat (nat (- i)) else formatNat (nat i))"

text \<open>
  \<^verbatim>\<open>strings.Replace(s, old, new, n)\<close> for a non-empty \<open>old\<close>: the first
  \<open>n\<close> non-overlapping occurrences of \<open>old\<close>, found from left to right, are
  replaced by \<open>new\<close>; all of them when \<open>n < 0\<close>. The text put in is not scanned
  again. The code only passes the literal token as \<open>old\<close>; with an empty \<open>old\<close>
  (where Go inserts \<open>new\<close> around every rune) the model returns \<open>s\<close>.
\<close>

function replaceFrom :: "string \<Rightarrow> string \<Rightarrow> int \<Rightarrow> string \<Rightarrow> string" where
  "replaceFrom old new n [] = []"
| "replaceFrom old new n (c # cs) =
     (if old = [] \<or> n = 0 then c # cs
      else if prefix old (c # cs)
        then new @ replaceFrom old new (if n < 0 then n else n - 1) (drop (length old) (c # cs))
        else c # replaceFrom old new n cs)"
  by pat_completeness auto
termination
  by (relation "measure (\<lambda>(old, new, n, s). length s)") auto

declare replaceFrom.simps(2) [simp del]

definition Replace :: "string \<Rightarrow> string \<Rightarrow> string \<Rightarrow> int \<Rightarrow> string" where
  "Replace s old new n = (if old = new \<or> n = 0 then s else replaceFrom old new n s)"

text \<open>\<^verbatim>\<open>strings.Contains(s, sub)\<close>, used to state what a path contains.\<close>

fun Contains :: "string \<Rightarrow> string \<Rightarrow> bool" where
  "Contains [] sub = (sub = [])"
| "Contains (c # cs) sub = (prefix sub (c # cs) \<or> Contains cs sub)"

text \<open>
  \<^verbatim>\<open>os.Getenv\<close>: the value of the variable, empty when it is unset.
\<close>

definition Getenv :: "(string \<rightharpoonup> string) \<Rightarrow> string \<Rightarrow> string" where
  "Getenv env k = (case env k of None \<Rightarrow> [] | Some v \<Rightarrow> v)"

section \<open>The settings store\<close>

text \<open>
  The store (\<^verbatim>\<open>myViper\<close>) is an external collaborator; the code only calls its typed
  getters with a dotted key. It is modelled by what those calls return, with no
  assumption on the results. \<open>UnmarshalKey\<close> is only called to fill a
  \<^verbatim>\<open>fabricCAConfig\<close>; it gives the filled descriptor or the error.
\<close>

text \<open>
  The descriptor of the credential service client. A Go slice may be nil, which
  serialises differently from an empty one, hence the \<^typ>\<open>string list option\<close>.
\<close>

record clientFiles =
  Keyfile :: string
  Certfile :: string

record fabricCAConfig =
  ServerURL :: string
  Certfiles :: "string list option"
  Client :: clientFiles

record viper =
  configFile :: string
  GetString :: "string \<Rightarrow> string"
  GetInt :: "string \<Rightarrow> int"
  GetBool :: "string \<Rightarrow> bool"
  GetStringMap :: "string \<Rightarrow> (string \<times> iface) list"
  UnmarshalKey :: "string \<Rightarrow> goerror + fabricCAConfig"

definition token :: string where
  "token = ''$GOPATH''"

definition IsTLSEnabled :: "viper \<Rightarrow> bool" where
  "IsTLSEnabled v = GetBool v ''client.tls.enabled''"


definition GetOrdererTLSCertificate :: "viper \<Rightarrow> (string \<rightharpoonup> string) \<Rightarrow> string" where
  "GetOrdererTLSCertificate v env =
     Replace (GetString v ''client.orderer.tls.certificate'') token (Getenv env ''GOPATH'') (- 1)"

section \<open>Peer entries\<close>

record PeerConfig =
  Host :: string
  Port :: string
  EventHost :: string
  EventPort :: string
  TLSCertificate :: string
  TLSServerHostOverride :: string

text \<open>
  The six local variables of the loop body of \<^verbatim>\<open>GetPeersConfig\<close> after the
  \<^verbatim>\<open>if ok ... else ...\<close> statement. In both branches the four plain fields are
  read with two-value assertions, while the \<^verbatim>\<open>tls\<close> value is asserted to be a
  \<^verbatim>\<open>map[string]interface{}\<close> with the single-value form, once per TLS field. In
  the \<^verbatim>\<open>else\<close> branch the entry itself is asserted with the single-value form.
\<close>

record peerFields =
  host :: string
  port :: int
  eventHost :: string
  eventPort :: int
  tlsCertificate :: string
  tlsServerHostOverride :: string

definition extractFields :: "iface \<Rightarrow> peerFields outcome" where
  "extractFields val =
     (case val of
        VStrMap mm \<Rightarrow>
          andThen (assertStrMap (index mm ''tls'')) (\<lambda>t1.
          andThen (assertStrMap (index mm ''tls'')) (\<lambda>t2.
            Returned \<lparr> host = asString (index mm ''host''),
                       port = asInt (index mm ''port''),
                       eventHost = asString (index mm ''event_host''),
                       eventPort = asInt (index mm ''event_port''),
                       tlsCertificate = asString (index t1 ''certificate''),
                       tlsServerHostOverride = asString (index t2 ''serverhostoverride'') \<rparr>))
      | _ \<Rightarrow>
          andThen (assertIfaceMap val) (\<lambda>mm1.
          andThen (assertStrMap (index mm1 (VStr ''tls''))) (\<lambda>t1.
          andThen (assertStrMap (index mm1 (VStr ''tls''))) (\<lambda>t2.
            Returned \<lparr> host = asString (index mm1 (VStr ''host'')),
                       port = asInt (index mm1 (VStr ''port'')),
                       eventHost = asString (index mm1 (VStr ''event_host'')),
                       eventPort = asInt (index mm1 (VStr ''event_port'')),
                       tlsCertificate = asString (index t1 ''certificate''),
                       tlsServerHostOverride = asString (index t2 ''serverhostoverride'') \<rparr>))))"

text \<open>
  The rest of the loop body: the record is assembled with the ports in decimal form, the
  five checks run in the order of the source, each with its own message ending in the
  entry's label, and the token is replaced in the certificate path.
\<close>

definition checkPeer :: "viper \<Rightarrow> (string \<rightharpoonup> string) \<Rightarrow> string \<Rightarrow> peerFields \<Rightarrow> PeerConfig outcome" where
  "checkPeer v env key f =
     (let p = \<lparr> Host = host f, Port = Itoa (port f), EventHost = eventHost f,
                EventPort = Itoa (eventPort f), TLSCertificate = tlsCertificate f,
                TLSServerHostOverride = tlsServerHostOverride f \<rparr>
      in if Host p = [] then Panicked (PanicMsg (''host key not exist or empty for '' @ key))
         else if Port p = [] then Panicked (PanicMsg (''port key not exist or empty for '' @ key))
         else if EventHost p = [] then Panicked (PanicMsg (''event_host not exist or empty for '' @ key))
         else if EventPort p = [] then Panicked (PanicMsg (''event_port not exist or empty for '' @ key))
         else if IsTLSEnabled v \<and> TLSCertificate p = []
           then Panicked (PanicMsg (''tls.certificate not exist or empty for '' @ key))
         else Returned (p\<lparr> TLSCertificate :=
                 Replace (TLSCertificate p) token (Getenv env ''GOPATH'') (- 1) \<rparr>))"

definition peerEntry :: "viper \<Rightarrow> (string \<rightharpoonup> string) \<Rightarrow> string \<times> iface \<Rightarrow> PeerConfig outcome" where
  "peerEntry v env kv = andThen (extractFields (snd kv)) (checkPeer v env (fst kv))"

text \<open>
  The loop over \<^verbatim>\<open>client.peers\<close>. Go visits the entries of a map in an unspecified
  order; the association list returned by the store is read as the order of this visit,
  so a statement for every list covers every order. The first panic ends the call.
\<close>

fun peersLoop :: "viper \<Rightarrow> (string \<rightharpoonup> string) \<Rightarrow> (string \<times> iface) list \<Rightarrow> PeerConfig list
    \<Rightarrow> PeerConfig list outcome" where
  "peersLoop v env [] peersConfig = Returned peersConfig"
| "peersLoop v env (kv # rest) peersConfig =
     andThen (peerEntry v env kv) (\<lambda>p. peersLoop v env rest (peersConfig @ [p]))"

definition GetPeersConfig :: "viper \<Rightarrow> (string \<rightharpoonup> string) \<Rightarrow> PeerConfig list outcome" where
  "GetPeersConfig v env = peersLoop v env (GetStringMap v ''client.peers'') []"

section \<open>Initialisation\<close>

datatype Level = CRITICAL | ERROR | WARNING | NOTICE | INFO | DEBUG

text \<open>
  Calls into other packages whose results the code depends on, taken as parameters:
  \<^verbatim>\<open>ReadInConfig\<close> of the store (the error, if any, and the store afterwards),
  \<^verbatim>\<open>logging.LogLevel\<close>, \<^verbatim>\<open>pem.Decode\<close> (the block, if one is found, and
  the rest), \<^verbatim>\<open>x509.ParseCertificate\<close> and \<^verbatim>\<open>json.Marshal\<close>.
\<close>

record Block =
  blockType :: string
  Bytes :: string

record Certificate =
  Raw :: string

record library =
  ReadInConfig :: "viper \<Rightarrow> goerror option \<times> viper"
  LogLevel :: "string \<Rightarrow> goerror + Level"
  Decode :: "string \<Rightarrow> Block option \<times> string"
  ParseCertificate :: "string \<Rightarrow> goerror + Certificate"
  Marshal :: "fabricCAConfig \<Rightarrow> goerror + string"

text \<open>
  The package state: the store, the level set for the module \<^verbatim>\<open>fabric_sdk_go\<close>
  (\<^term>\<open>None\<close> until \<^verbatim>\<open>InitConfig\<close> sets it) and the messages handed to
  \<^verbatim>\<open>log.Infof\<close>.
\<close>

record sdk =
  myViper :: viper
  moduleLevel :: "Level option"
  logged :: "string list"

text \<open>
  The first half of \<^verbatim>\<open>InitConfig\<close>: with a non-empty path the file is set and
  read; the result is the error the function returns at once, if any.
\<close>

definition readConfigFile :: "library \<Rightarrow> string \<Rightarrow> sdk \<Rightarrow> goerror option \<times> sdk" where
  "readConfigFile lib file st =
     (if file \<noteq> [] then
        (case ReadInConfig lib ((myViper st)\<lparr> configFile := file \<rparr>) of
           (None, v') \<Rightarrow>
             (None, st\<lparr> myViper := v',
                        logged := logged st @ [''Using config file: '' @ configFile v'] \<rparr>)
         | (Some err, v') \<Rightarrow>
             (Some (''Fatal error config file: '' @ err), st\<lparr> myViper := v' \<rparr>))
      else (None, st))"

text \<open>The second half: the level of the module, \<open>INFO\<close> unless the setting names one.\<close>

definition setLoggingLevel :: "library \<Rightarrow> sdk \<Rightarrow> goerror option outcome \<times> sdk" where
  "setLoggingLevel lib st =
     (let loggingLevelString = GetString (myViper st) ''client.logging.level'' in
      if loggingLevelString \<noteq> [] then
        (let st' = st\<lparr> logged := logged st @
                     [''fabric_sdk_go Logging level: '' @ loggingLevelString] \<rparr>
         in case LogLevel lib loggingLevelString of
              Inl err \<Rightarrow> (Panicked (PanicErr err), st')
            | Inr logLevel \<Rightarrow> (Returned None, st'\<lparr> moduleLevel := Some logLevel \<rparr>))
      else (Returned None, st\<lparr> moduleLevel := Some INFO \<rparr>))"

definition InitConfig :: "library \<Rightarrow> string \<Rightarrow> sdk \<Rightarrow> goerror option outcome \<times> sdk" where
  "InitConfig lib file st =
     (case readConfigFile lib file st of
        (Some err, st') \<Rightarrow> (Returned (Some err), st')
      | (None, st') \<Rightarrow> setLoggingLevel lib st')"

section \<open>The trust pool\<close>

text \<open>
  The parameter \<^verbatim>\<open>tlsCertificate\<close> of \<^verbatim>\<open>GetTLSCACertPool\<close> is called
  \<open>certPath\<close> below, the first name being taken by a field of the loop's variables.
\<close>

text \<open>
  The file system: what \<^verbatim>\<open>ioutil.ReadFile\<close> returns for a path, the error a
  write to a path meets, if any, and what a read of the path gives after such a failed
  write of given bytes. \<^verbatim>\<open>ioutil.WriteFile\<close> opens the file truncating it,
  writes and closes: when the open fails the file is as it was, when a later step fails
  the file is empty or holds part of the bytes. The model leaves this open: what is left
  is a parameter, \<open>afterFault\<close>. A write that succeeds replaces the content. The
  permission bits (\<^verbatim>\<open>0644\<close>) the code passes are not kept.
\<close>

record filesys =
  ReadFile :: "string \<Rightarrow> goerror + string"
  writeFault :: "string \<Rightarrow> goerror option"
  afterFault :: "string \<Rightarrow> string \<Rightarrow> goerror + string"

definition WriteFile :: "filesys \<Rightarrow> string \<Rightarrow> string \<Rightarrow> goerror option \<times> filesys" where
  "WriteFile fs name content =
     (case writeFault fs name of
        Some err \<Rightarrow>
          (Some err, fs\<lparr> ReadFile := (ReadFile fs)(name := afterFault fs name content) \<rparr>)
      | None \<Rightarrow> (None, fs\<lparr> ReadFile := (ReadFile fs)(name := Inr content) \<rparr>))"

text \<open>
  A pool is the list of its certificates. \<^verbatim>\<open>AddCert\<close> adds a certificate
  unless the pool has it already.
\<close>

type_synonym CertPool = "Certificate list"

definition NewCertPool :: CertPool where
  "NewCertPool = []"

definition AddCert :: "CertPool \<Rightarrow> Certificate \<Rightarrow> CertPool" where
  "AddCert pool cert = (if cert \<in> set pool then pool else pool @ [cert])"

text \<open>
  \<^verbatim>\<open>loadCAKey\<close> drops the error of the decoder and reads \<^verbatim>\<open>block.Bytes\<close>:
  with no block found, \<^verbatim>\<open>block\<close> is nil and the read panics.
\<close>

definition loadCAKey :: "library \<Rightarrow> string \<Rightarrow> Certificate outcome" where
  "loadCAKey lib rawData =
     (case fst (Decode lib rawData) of
        None \<Rightarrow> Panicked NilDereference
      | Some block \<Rightarrow>
          (case ParseCertificate lib (Bytes block) of
             Inl err \<Rightarrow> Panicked (PanicErr err)
           | Inr pub \<Rightarrow> Returned pub))"

definition GetTLSCACertPool ::
    "library \<Rightarrow> filesys \<Rightarrow> string \<Rightarrow> (CertPool option \<times> goerror option) outcome" where
  "GetTLSCACertPool lib fs certPath =
     (let certPool = NewCertPool in
      if certPath \<noteq> [] then
        (case ReadFile fs certPath of
           Inl err \<Rightarrow> Returned (None, Some err)
         | Inr rawData \<Rightarrow>
             andThen (loadCAKey lib rawData) (\<lambda>pub.
               Returned (Some (AddCert certPool pub), None)))
      else Returned (Some certPool, None))"

section \<open>The derived file\<close>

definition filePath :: string where
  "filePath = ''/tmp/client-config.json''"

definition GetFabricCAClientPath ::
    "library \<Rightarrow> viper \<Rightarrow> filesys \<Rightarrow> (string \<times> goerror option) \<times> filesys" where
  "GetFabricCAClientPath lib v fs =
     (case UnmarshalKey v ''client.fabricCA'' of
        Inl err \<Rightarrow> (([], Some err), fs)
      | Inr fabricCAConf \<Rightarrow>
          (case Marshal lib fabricCAConf of
             Inl err \<Rightarrow> (([], Some err), fs)
           | Inr jsonConfig \<Rightarrow>
               (case WriteFile fs filePath jsonConfig of
                  (err, fs') \<Rightarrow> ((filePath, err), fs'))))"

section \<open>Notions used in the statements\<close>

text \<open>A decimal string: digits, not empty, after an optional minus sign.\<close>

definition isDigit :: "char \<Rightarrow> bool" where
  "isDigit c = (c \<in> set digitTable)"


text \<open>
  Whether a value put in place of the token can form a new occurrence of the token with
  the text around it or by itself. It can when it is empty (the texts on both sides
  meet), when a suffix of the token that is not empty and not the whole token is a
  prefix of the value or begins with the value, and when a suffix of the value that is
  not empty is a prefix of the token or begins with the token.
\<close>

definition comparable :: "string \<Rightarrow> string \<Rightarrow> bool" where
  "comparable a b = (prefix a b \<or> prefix b a)"

definition createsToken :: "string \<Rightarrow> bool" where
  "createsToken new =
     (new = [] \<or>
      list_ex (\<lambda>u. u \<noteq> [] \<and> comparable u new) (suffixes (tl token)) \<or>
      list_ex (\<lambda>w. w \<noteq> [] \<and> comparable w token) (suffixes new))"

text \<open>
  The two map shapes the extraction supports, and the value an entry holds under a key
  in either of them (a nil interface when absent).
\<close>

fun supportedShape :: "iface \<Rightarrow> bool" where
  "supportedShape (VStrMap mm) = True"
| "supportedShape (VIfaceMap mm1) = True"
| "supportedShape v = False"

definition entryField :: "iface \<Rightarrow> string \<Rightarrow> iface" where
  "entryField val k =
     (case val of VStrMap mm \<Rightarrow> index mm k
                | VIfaceMap mm1 \<Rightarrow> index mm1 (VStr k)
                | _ \<Rightarrow> VNil)"

text \<open>The certificate path an entry configures, before the token is replaced.\<close>

definition configuredCertificate :: "iface \<Rightarrow> string" where
  "configuredCertificate val =
     (case entryField val ''tls'' of
        VStrMap t \<Rightarrow> asString (index t ''certificate'')
      | _ \<Rightarrow> [])"

section \<open>Sample inputs\<close>

text \<open>
  A store with a given TLS flag, orderer certificate path and peer entries, every other
  setting absent; a library and a file system for the examples below.
\<close>

definition sampleStore :: "bool \<Rightarrow> string \<Rightarrow> (string \<times> iface) list \<Rightarrow> viper" where
  "sampleStore tls cert peers =
     \<lparr> configFile = [],
       GetString = (\<lambda>k. if k = ''client.orderer.tls.certificate'' then cert else []),
       GetInt = (\<lambda>k. 0),
       GetBool = (\<lambda>k. k = ''client.tls.enabled'' \<and> tls),
       GetStringMap = (\<lambda>k. if k = ''client.peers'' then peers else []),
       UnmarshalKey = (\<lambda>k. if k = ''client.fabricCA''
          then Inr \<lparr> ServerURL = ''https://ca:7054'', Certfiles = Some [''a.pem''],
                     Client = \<lparr> Keyfile = ''k.pem'', Certfile = ''c.pem'' \<rparr> \<rparr>
          else Inl ''no such key'') \<rparr>"

definition sampleLibrary :: library where
  "sampleLibrary =
     \<lparr> ReadInConfig = (\<lambda>v. if configFile v = ''config.yaml'' then (None, v)
                             else (Some ''cannot parse'', v)),
       LogLevel = (\<lambda>s. if s = ''DEBUG'' then Inr DEBUG else Inl ''invalid log level''),
       Decode = (\<lambda>raw. if prefix ''PEM:'' raw
                        then (Some \<lparr> blockType = ''CERTIFICATE'', Bytes = drop 4 raw \<rparr>, [])
                        else (None, raw)),
       ParseCertificate = (\<lambda>der. if der = [] then Inl ''malformed certificate''
                                   else Inr \<lparr> Raw = der \<rparr>),
       Marshal = (\<lambda>c. Inr (''serverURL='' @ ServerURL c)) \<rparr>"

definition sampleFiles :: filesys where
  "sampleFiles =
     \<lparr> ReadFile = (\<lambda>name. if name = ''ca.pem'' then Inr ''PEM:der''
                          else if name = ''corrupt.pem'' then Inr ''garbage''
                          else if name = ''empty.pem'' then Inr ''PEM:''
                          else Inl ''no such file''),
       writeFault = (\<lambda>name. if name = filePath then None else Some ''permission denied''),
       afterFault = (\<lambda>name content. Inl ''no such file'') \<rparr>"

definition readOnlyFiles :: filesys where
  "readOnlyFiles = sampleFiles\<lparr> writeFault := (\<lambda>name. Some ''read-only file system'') \<rparr>"

text \<open>
  A store whose \<^verbatim>\<open>client.fabricCA\<close> document does not fit the descriptor, and a
  library whose serialiser fails.
\<close>

definition unparsedStore :: viper where
  "unparsedStore = (sampleStore False [] [])\<lparr> UnmarshalKey := (\<lambda>k. Inl ''expected a map'') \<rparr>"

definition failingMarshal :: library where
  "failingMarshal = sampleLibrary\<lparr> Marshal := (\<lambda>c. Inl ''unsupported value'') \<rparr>"

definition buildEnv :: "string \<rightharpoonup> string" where
  "buildEnv = [''GOPATH'' \<mapsto> ''/opt/build'']"

definition sampleSdk :: sdk where
  "sampleSdk = \<lparr> myViper = sampleStore False [] [], moduleLevel = None, logged = [] \<rparr>"

text \<open>Peer entries: a complete one in each shape, one without a port or event port, one without \<^verbatim>\<open>tls\<close>
  in each shape, one whose \<^verbatim>\<open>tls\<close> value has the second shape, and one whose
  certificate is empty.\<close>

definition peerComplete :: iface where
  "peerComplete = VStrMap [(''host'', VStr ''h0''), (''port'', VInt 7051),
     (''event_host'', VStr ''e0''), (''event_port'', VInt 7053),
     (''tls'', VStrMap [(''certificate'', VStr ''$GOPATH/tls/ca.pem''),
                        (''serverhostoverride'', VStr ''peer0'')])]"

definition peerCompleteIface :: iface where
  "peerCompleteIface = VIfaceMap [(VStr ''host'', VStr ''h1''), (VStr ''port'', VInt 8051),
     (VStr ''event_host'', VStr ''e1''), (VStr ''event_port'', VInt 8053),
     (VStr ''tls'', VStrMap [(''certificate'', VStr ''$GOPATH/tls/ca.pem'')])]"

definition peerNoPort :: iface where
  "peerNoPort = VStrMap [(''host'', VStr ''h0''),
     (''event_host'', VStr ''e0''), (''event_port'', VInt 7053),
     (''tls'', VStrMap [(''certificate'', VStr ''ca.pem'')])]"

definition peerNoEventPortIface :: iface where
  "peerNoEventPortIface = VIfaceMap [(VStr ''host'', VStr ''h0''), (VStr ''port'', VInt 7051),
     (VStr ''event_host'', VStr ''e0''),
     (VStr ''tls'', VStrMap [(''certificate'', VStr ''ca.pem'')])]"

definition peerNoTLS :: iface where
  "peerNoTLS = VStrMap [(''host'', VStr ''h0''), (''port'', VInt 7051),
     (''event_host'', VStr ''e0''), (''event_port'', VInt 7053)]"

definition peerNoTLSIface :: iface where
  "peerNoTLSIface = VIfaceMap [(VStr ''host'', VStr ''h1''), (VStr ''port'', VInt 8051),
     (VStr ''event_host'', VStr ''e1''), (VStr ''event_port'', VInt 8053)]"

definition peerNestedIfaceTLS :: iface where
  "peerNestedIfaceTLS = VIfaceMap [(VStr ''host'', VStr ''h0''), (VStr ''port'', VInt 7051),
     (VStr ''event_host'', VStr ''e0''), (VStr ''event_port'', VInt 7053),
     (VStr ''tls'', VIfaceMap [(VStr ''certificate'', VStr ''ca.pem'')])]"

definition peerEmptyCertificate :: iface where
  "peerEmptyCertificate = VStrMap [(''host'', VStr ''h2''), (''port'', VInt 9051),
     (''event_host'', VStr ''e2''), (''event_port'', VInt 9053),
     (''tls'', VStrMap [(''certificate'', VStr [])])]"

section \<open>The decimal form of an integer\<close>

lemma length_digitTable: "length digitTable = 10"
  by (simp add: digitTable_def)

lemma digitTable_nth: "k < 10 \<Longrightarrow> isDigit (digitTable ! k)"
  unfolding isDigit_def using length_digitTable nth_mem by metis

lemma formatNat_digits: "formatNat n \<noteq> [] \<and> list_all isDigit (formatNat n)"
proof (induction n rule: formatNat.induct)
  case (1 n)
  show ?case
  proof (cases "n < 10")
    case True
    then show ?thesis
      by (simp add: formatNat.simps [of n] digitTable_nth)
  next
    case False
    then have "formatNat n = formatNat (n div 10) @ [digitTable ! (n mod 10)]"
      by (simp add: formatNat.simps [of n])
    moreover have "isDigit (digitTable ! (n mod 10))"
      by (rule digitTable_nth) simp
    ultimately show ?thesis
      using 1 [OF False] by simp
  qed
qed


lemma Itoa_nonempty: "Itoa i \<noteq> []"
  using formatNat_digits by (simp add: Itoa_def)



section \<open>Replacing the token\<close>

text \<open>
  Two facts on \<^const>\<open>replaceFrom\<close> without a limit: a string without the token is
  left as it is, and the first occurrence is replaced and the scan goes on behind it.
\<close>

lemma replaceFrom_unfold:
  "s \<noteq> [] \<Longrightarrow> old \<noteq> [] \<Longrightarrow> n < 0 \<Longrightarrow>
   replaceFrom old new n s =
     (if prefix old s then new @ replaceFrom old new n (drop (length old) s)
      else hd s # replaceFrom old new n (tl s))"
  by (cases s) (simp_all add: replaceFrom.simps(2))

lemma replaceFrom_absent:
  "old \<noteq> [] \<Longrightarrow> \<not> Contains s old \<Longrightarrow> replaceFrom old new n s = s"
  by (induction s) (simp_all add: replaceFrom.simps(2))

lemma prefix_of_long_enough:
  assumes "prefix xs (ys @ zs)" and "length xs \<le> length ys"
  shows "prefix xs ys"
  using assms by (auto simp: prefix_append)

lemma replaceFrom_first:
  assumes "old \<noteq> []" and "n < 0"
  shows "\<not> Contains (a @ butlast old) old \<Longrightarrow>
         replaceFrom old new n (a @ old @ b) = a @ new @ replaceFrom old new n b"
proof (induction a)
  case Nil
  have "old @ b \<noteq> []" using assms(1) by simp
  from replaceFrom_unfold [OF this assms] show ?case by simp
next
  case (Cons c a)
  from Cons.prems have np: "\<not> prefix old (c # a @ butlast old)"
    and nc: "\<not> Contains (a @ butlast old) old" by simp_all
  have split: "c # a @ old @ b = (c # a @ butlast old) @ ([last old] @ b)"
    using assms(1) by simp
  have "length old \<le> length (c # a @ butlast old)" by simp
  with np have "\<not> prefix old ((c # a @ butlast old) @ ([last old] @ b))"
    using prefix_of_long_enough by blast
  then have "\<not> prefix old (c # a @ old @ b)"
    unfolding split .
  then have "replaceFrom old new n (c # a @ old @ b) = c # replaceFrom old new n (a @ old @ b)"
    using assms by (simp add: replaceFrom.simps(2))
  with Cons.IH [OF nc] show ?case by simp
qed

lemma Replace_all_absent:
  "\<not> Contains s token \<Longrightarrow> Replace s token new (- 1) = s"
  using replaceFrom_absent [of token s new "- 1"] by (simp add: Replace_def token_def)

lemma Replace_all_first:
  assumes "\<not> Contains (a @ butlast token) token"
  shows "Replace (a @ token @ b) token new (- 1) = a @ new @ Replace b token new (- 1)"
proof (cases "token = new")
  case True
  then show ?thesis by (simp add: Replace_def)
next
  case False
  have t: "token \<noteq> []" by (simp add: token_def)
  from False replaceFrom_first [OF t _ assms, of "- 1" new b] show ?thesis
    by (simp add: Replace_def)
qed

section \<open>When an occurrence of the token is left\<close>

text \<open>
  \<^const>\<open>Contains\<close> is the sublist relation of the library. The value put in is
  not scanned again, so an occurrence of the token can be left in the result, made of the
  value and the text around it. \<^const>\<open>createsToken\<close> says exactly when: if it
  does not hold of the value, no string resolves to one that contains the token
  (\<open>Replace_all_safe\<close>); if it holds, some string does
  (\<open>createsToken_necessary\<close>).
\<close>

lemma Contains_sublist: "Contains s t \<longleftrightarrow> sublist t s"
  by (induction s) (simp_all add: sublist_Cons_right)

lemma Contains_length: "Contains s t \<Longrightarrow> length t \<le> length s"
  by (simp add: Contains_sublist sublist_length_le)

lemma Contains_appendI: "Contains (y @ t @ z) t"
  by (simp add: Contains_sublist)

lemma comparable_sym: "comparable a b = comparable b a"
  by (auto simp: comparable_def)

lemma createsToken_iff:
  "createsToken new \<longleftrightarrow>
     new = [] \<or>
     (\<exists>u. u \<noteq> [] \<and> suffix u (tl token) \<and> comparable u new) \<or>
     (\<exists>w. w \<noteq> [] \<and> suffix w new \<and> comparable w token)"
  by (auto simp: createsToken_def list_ex_iff in_set_suffixes)

lemma replaceFrom_suffix_prefix:
  assumes "\<not> createsToken new" and "n < 0"
  shows "u \<noteq> [] \<Longrightarrow> suffix u token \<Longrightarrow> prefix u (replaceFrom token new n s) \<Longrightarrow> prefix u s"
proof (induction s arbitrary: u rule: length_induct)
  case (1 s)
  have t: "token \<noteq> []" by (simp add: token_def)
  have new: "new \<noteq> []" using assms(1) by (auto simp: createsToken_iff)
  show ?case
  proof (cases s)
    case Nil
    with 1 show ?thesis by simp
  next
    case (Cons c cs)
    show ?thesis
    proof (cases "prefix token s")
      case True
      then have "replaceFrom token new n s = new @ replaceFrom token new n (drop (length token) s)"
        using assms(2) t Cons by (simp add: replaceFrom.simps(2))
      with 1(4) have "prefix u (new @ replaceFrom token new n (drop (length token) s))" by simp
      moreover have "prefix new (new @ replaceFrom token new n (drop (length token) s))" by simp
      ultimately have cmp: "comparable u new"
        unfolding comparable_def by (rule prefix_same_cases)
      have "u = token \<or> suffix u (tl token)"
        using 1(3) t by (metis list.collapse suffix_Cons)
      then have "createsToken new"
      proof
        assume "u = token"
        with cmp have "comparable new token" by (simp add: comparable_sym)
        with new show ?thesis unfolding createsToken_iff by blast
      next
        assume "suffix u (tl token)"
        with cmp 1(2) show ?thesis unfolding createsToken_iff by blast
      qed
      with assms(1) show ?thesis by simp
    next
      case False
      then have eq: "replaceFrom token new n s = c # replaceFrom token new n cs"
        using assms(2) t Cons by (simp add: replaceFrom.simps(2))
      obtain x u' where u: "u = x # u'" using 1(2) by (cases u) auto
      with 1(4) eq have xc: "x = c" and pu': "prefix u' (replaceFrom token new n cs)" by simp_all
      show ?thesis
      proof (cases "u' = []")
        case True
        with u xc Cons show ?thesis by simp
      next
        case False
        have "suffix u' token" using 1(3) u by (meson suffix_ConsD)
        moreover have "length cs < length s" using Cons by simp
        ultimately have "prefix u' cs" using 1(1) False pu' by blast
        with u xc Cons show ?thesis by simp
      qed
    qed
  qed
qed

lemma Contains_append_cases:
  "Contains (new @ r) t \<Longrightarrow> \<not> Contains r t \<Longrightarrow>
   \<exists>w. w \<noteq> [] \<and> suffix w new \<and> prefix t (w @ r)"
proof (induction new)
  case Nil
  then show ?case by simp
next
  case (Cons a new)
  show ?case
  proof (cases "prefix t (a # new @ r)")
    case True
    then have "(a # new) \<noteq> [] \<and> suffix (a # new) (a # new) \<and> prefix t ((a # new) @ r)" by simp
    then show ?thesis by blast
  next
    case False
    with Cons.prems have "Contains (new @ r) t" by simp
    from Cons.IH [OF this Cons.prems(2)] obtain w where
      "w \<noteq> []" "suffix w new" "prefix t (w @ r)" by blast
    then have "w \<noteq> [] \<and> suffix w (a # new) \<and> prefix t (w @ r)"
      by (simp add: suffix_Cons)
    then show ?thesis by blast
  qed
qed

lemma replaceFrom_safe:
  assumes "\<not> createsToken new" and "n < 0"
  shows "\<not> Contains (replaceFrom token new n s) token"
proof (induction s rule: length_induct)
  case (1 s)
  have t: "token \<noteq> []" by (simp add: token_def)
  show ?case
  proof (cases s)
    case Nil
    with t show ?thesis by simp
  next
    case (Cons c cs)
    show ?thesis
    proof (cases "prefix token s")
      case True
      let ?r = "replaceFrom token new n (drop (length token) s)"
      from True have eq: "replaceFrom token new n s = new @ ?r"
        using assms(2) t Cons by (simp add: replaceFrom.simps(2))
      have "length (drop (length token) s) < length s" using t Cons by simp
      with 1 have nr: "\<not> Contains ?r token" by blast
      show ?thesis
      proof
        assume "Contains (replaceFrom token new n s) token"
        with eq have "Contains (new @ ?r) token" by simp
        from Contains_append_cases [OF this nr] obtain w where
          w: "w \<noteq> []" "suffix w new" "prefix token (w @ ?r)" by blast
        have "prefix w (w @ ?r)" by simp
        with w(3) have "comparable w token"
          unfolding comparable_def using prefix_same_cases by blast
        with w(1,2) have "createsToken new" unfolding createsToken_iff by blast
        with assms(1) show False by simp
      qed
    next
      case False
      then have eq: "replaceFrom token new n s = c # replaceFrom token new n cs"
        using assms(2) t Cons by (simp add: replaceFrom.simps(2))
      have "\<not> prefix token (replaceFrom token new n s)"
        using replaceFrom_suffix_prefix [OF assms t, where s = s] False by auto
      moreover have "\<not> Contains (replaceFrom token new n cs) token"
        using 1 Cons by simp
      ultimately show ?thesis using eq by simp
    qed
  qed
qed

lemma Replace_all_safe:
  assumes "\<not> createsToken new"
  shows "\<not> Contains (Replace s token new (- 1)) token"
proof -
  have "comparable token token" by (simp add: comparable_def)
  then have "createsToken token" unfolding createsToken_iff by auto
  with assms have "token \<noteq> new" by auto
  then have "Replace s token new (- 1) = replaceFrom token new (- 1) s"
    by (simp add: Replace_def)
  with replaceFrom_safe [OF assms, of "- 1" s] show ?thesis by simp
qed

text \<open>
  For the other direction: in front of a prefix of the token that is not the whole token,
  the token occurs first where it is written.
\<close>

lemma proper_prefix_first:
  assumes "prefix x token" and "x \<noteq> token"
  shows "\<not> Contains (x @ butlast token) token"
proof -
  have "x \<in> set (prefixes token)" using assms(1) by (simp add: in_set_prefixes)
  then have "x \<in> {[], ''$'', ''$G'', ''$GO'', ''$GOP'', ''$GOPA'', ''$GOPAT'', ''$GOPATH''}"
    by (simp add: token_def)
  with assms(2) show ?thesis
    by (auto simp: token_def)
qed

lemma Replace_all_Nil: "Replace [] token new (- 1) = []"
  by (simp add: Replace_def)

lemma short_unchanged:
  "length z < length token \<Longrightarrow> Replace z token new (- 1) = z"
  using Contains_length [of z token] Replace_all_absent [of z new] by auto

lemma createsToken_necessary:
  assumes "createsToken new"
  shows "\<exists>s. Contains (Replace s token new (- 1)) token"
proof -
  have t: "token \<noteq> []" by (simp add: token_def)
  from assms consider (empty) "new = []"
    | (before) u where "u \<noteq> []" "suffix u (tl token)" "comparable u new"
    | (behind) w where "w \<noteq> []" "suffix w new" "comparable w token"
    unfolding createsToken_iff by blast
  then show ?thesis
  proof cases
    case empty
    have "Contains (Replace ''$GO$GOPATHPATH'' token new (- 1)) token"
      unfolding empty by (simp add: Replace_def token_def replaceFrom.simps(2))
    then show ?thesis ..
  next
    case before
    from before(2) obtain y where "tl token = y @ u" by (auto simp: suffix_def)
    with t have tok: "token = (hd token # y) @ u" by (metis append_Cons list.collapse)
    let ?x = "hd token # y"
    have px: "prefix ?x token" using tok by (metis prefixI)
    have nx: "?x \<noteq> token" using tok before(1) by (metis append_self_conv)
    note first = Replace_all_first [OF proper_prefix_first [OF px nx], of _ new]
    from before(3) show ?thesis unfolding comparable_def
    proof
      assume "prefix u new"
      then obtain v where v: "new = u @ v" by (auto simp: prefix_def)
      have "Replace (?x @ token @ []) token new (- 1) = ?x @ new @ []"
        using first [of "[]"] by (simp add: Replace_all_Nil)
      also have "\<dots> = [] @ token @ v" using tok v by simp
      finally have "Contains (Replace (?x @ token @ []) token new (- 1)) token"
        using Contains_appendI [of "[]" token v] by simp
      then show ?thesis ..
    next
      assume "prefix new u"
      then obtain z where z: "u = new @ z" by (auto simp: prefix_def)
      have "length z < length token" using tok z by (metis length_append length_Cons
          add_Suc less_add_Suc2 less_Suc_eq trans_less_add2)
      then have "Replace z token new (- 1) = z" by (rule short_unchanged)
      with first [of z] have "Replace (?x @ token @ z) token new (- 1) = ?x @ new @ z" by simp
      also have "\<dots> = token" using tok z by simp
      finally have "Contains (Replace (?x @ token @ z) token new (- 1)) token"
        using Contains_appendI [of "[]" token "[]"] by simp
      then show ?thesis ..
    qed
  next
    case behind
    from behind(2) obtain y where y: "new = y @ w" by (auto simp: suffix_def)
    have "prefix [] token" "[] \<noteq> token" using t by auto
    note first = Replace_all_first [OF proper_prefix_first [OF this], of _ new]
    from behind(3) show ?thesis unfolding comparable_def
    proof
      assume "prefix w token"
      then obtain z where z: "token = w @ z" by (auto simp: prefix_def)
      have "length z < length token" using z behind(1) by (metis length_append length_greater_0_conv
          less_add_same_cancel2)
      then have "Replace z token new (- 1) = z" by (rule short_unchanged)
      with first [of z] have "Replace ([] @ token @ z) token new (- 1) = new @ z" by simp
      also have "\<dots> = y @ token @ []" using y z by simp
      finally have "Contains (Replace ([] @ token @ z) token new (- 1)) token"
        using Contains_appendI [of y token "[]"] by simp
      then show ?thesis ..
    next
      assume "prefix token w"
      then obtain z where z: "w = token @ z" by (auto simp: prefix_def)
      have "Replace ([] @ token @ []) token new (- 1) = new"
        using first [of "[]"] by (simp add: Replace_all_Nil)
      also have "\<dots> = y @ token @ z" using y z by simp
      finally have "Contains (Replace ([] @ token @ []) token new (- 1)) token"
        using Contains_appendI [of y token z] by simp
      then show ?thesis ..
    qed
  qed
qed

lemma createsToken_exact:
  "(\<forall>s. \<not> Contains (Replace s token new (- 1)) token) \<longleftrightarrow> \<not> createsToken new"
  using createsToken_necessary Replace_all_safe by blast

section \<open>The loop over the peer entries\<close>

text \<open>
  The decimal form of a port is never empty, so the second and fourth check of the loop
  body cannot fire: three checks remain.
\<close>

lemma checkPeer_eq:
  "checkPeer v env key f =
     (if host f = [] then Panicked (PanicMsg (''host key not exist or empty for '' @ key))
      else if eventHost f = [] then Panicked (PanicMsg (''event_host not exist or empty for '' @ key))
      else if IsTLSEnabled v \<and> tlsCertificate f = []
        then Panicked (PanicMsg (''tls.certificate not exist or empty for '' @ key))
      else Returned \<lparr> Host = host f, Port = Itoa (port f), EventHost = eventHost f,
             EventPort = Itoa (eventPort f),
             TLSCertificate = Replace (tlsCertificate f) token (Getenv env ''GOPATH'') (- 1),
             TLSServerHostOverride = tlsServerHostOverride f \<rparr>)"
  by (simp add: checkPeer_def Let_def Itoa_nonempty)

lemma extractFields_eq:
  assumes "supportedShape val" and "entryField val ''tls'' = VStrMap t"
  shows "extractFields val = Returned
           \<lparr> host = asString (entryField val ''host''),
             port = asInt (entryField val ''port''),
             eventHost = asString (entryField val ''event_host''),
             eventPort = asInt (entryField val ''event_port''),
             tlsCertificate = asString (index t ''certificate''),
             tlsServerHostOverride = asString (index t ''serverhostoverride'') \<rparr>"
  using assms by (cases val) (simp_all add: extractFields_def entryField_def)

lemma extractFields_Returned:
  assumes "extractFields val = Returned f"
  shows "supportedShape val \<and> (\<exists>t. entryField val ''tls'' = VStrMap t)"
proof (cases val)
  case (VStrMap mm)
  with assms show ?thesis
    by (cases "index mm ''tls''") (simp_all add: extractFields_def entryField_def)
next
  case (VIfaceMap mm1)
  with assms show ?thesis
    by (cases "index mm1 (VStr ''tls'')") (simp_all add: extractFields_def entryField_def)
qed (use assms in \<open>simp_all add: extractFields_def\<close>)

lemma peersLoop_append:
  "\<forall>kv \<in> set before. \<not> isPanic (peerEntry v env kv) \<Longrightarrow>
   \<exists>acc'. peersLoop v env (before @ rest) acc = peersLoop v env rest acc'"
proof (induction before arbitrary: acc)
  case Nil
  then show ?case by auto
next
  case (Cons kv before)
  then obtain p where p: "peerEntry v env kv = Returned p"
    by (cases "peerEntry v env kv") auto
  from Cons.IH [of "acc @ [p]"] Cons.prems show ?case
    by (simp add: p)
qed

lemma peersLoop_panic:
  assumes "\<forall>kv \<in> set before. \<not> isPanic (peerEntry v env kv)"
    and "peerEntry v env kv = Panicked e"
  shows "peersLoop v env (before @ kv # rest) acc = Panicked e"
proof -
  obtain acc' where "peersLoop v env (before @ kv # rest) acc = peersLoop v env (kv # rest) acc'"
    using peersLoop_append [OF assms(1)] by blast
  then show ?thesis by (simp add: assms(2))
qed

lemma peersLoop_Returned:
  "peersLoop v env kvs acc = Returned ps \<Longrightarrow>
   \<exists>qs. ps = acc @ qs \<and> list_all2 (\<lambda>kv p. peerEntry v env kv = Returned p) kvs qs"
proof (induction kvs arbitrary: acc)
  case Nil
  then show ?case by simp
next
  case (Cons kv kvs)
  then obtain p where p: "peerEntry v env kv = Returned p"
    by (cases "peerEntry v env kv") auto
  with Cons.prems have "peersLoop v env kvs (acc @ [p]) = Returned ps" by simp
  from Cons.IH [OF this] obtain qs where
    "ps = (acc @ [p]) @ qs" "list_all2 (\<lambda>kv p. peerEntry v env kv = Returned p) kvs qs"
    by blast
  then have "ps = acc @ (p # qs) \<and> list_all2 (\<lambda>kv p. peerEntry v env kv = Returned p) (kv # kvs) (p # qs)"
    using p by simp
  then show ?case by blast
qed

lemma GetPeersConfig_Returned:
  "GetPeersConfig v env = Returned ps \<Longrightarrow>
   list_all2 (\<lambda>kv p. peerEntry v env kv = Returned p) (GetStringMap v ''client.peers'') ps"
  using peersLoop_Returned [of v env "GetStringMap v ''client.peers''" "[]" ps]
  by (auto simp: GetPeersConfig_def)

lemma extractFields_Panicked: "extractFields val = Panicked e \<Longrightarrow> e = TypeAssertion"
proof (cases val)
  case (VStrMap mm)
  assume "extractFields val = Panicked e"
  with VStrMap show ?thesis
    by (cases "index mm ''tls''") (simp_all add: extractFields_def)
next
  case (VIfaceMap mm1)
  assume "extractFields val = Panicked e"
  with VIfaceMap show ?thesis
    by (cases "index mm1 (VStr ''tls'')") (simp_all add: extractFields_def)
qed (simp_all add: extractFields_def)

lemma port_checks_never_fire:
  "peerEntry v env (key, val) \<noteq> Panicked (PanicMsg (''port key not exist or empty for '' @ key)) \<and>
   peerEntry v env (key, val) \<noteq> Panicked (PanicMsg (''event_port not exist or empty for '' @ key))"
proof (cases "extractFields val")
  case (Returned f)
  then show ?thesis by (simp add: peerEntry_def checkPeer_eq)
next
  case (Panicked e)
  then have "e = TypeAssertion" by (rule extractFields_Panicked)
  with Panicked show ?thesis by (simp add: peerEntry_def)
qed

lemma missing_host_panics:
  assumes "supportedShape val" and "entryField val ''tls'' = VStrMap t"
  shows "(asString (entryField val ''host'') = [] \<longrightarrow>
            peerEntry v env (key, val) = Panicked (PanicMsg (''host key not exist or empty for '' @ key))) \<and>
         (asString (entryField val ''host'') \<noteq> [] \<and> asString (entryField val ''event_host'') = [] \<longrightarrow>
            peerEntry v env (key, val) = Panicked (PanicMsg (''event_host not exist or empty for '' @ key)))"
  by (simp add: peerEntry_def extractFields_eq [OF assms] checkPeer_eq)

lemma peerEntry_eq:
  assumes "supportedShape val" and "entryField val ''tls'' = VStrMap t"
    and "asString (entryField val ''host'') \<noteq> []"
    and "asString (entryField val ''event_host'') \<noteq> []"
  shows "peerEntry v env (key, val) =
     (if IsTLSEnabled v \<and> asString (index t ''certificate'') = []
        then Panicked (PanicMsg (''tls.certificate not exist or empty for '' @ key))
      else Returned \<lparr> Host = asString (entryField val ''host''),
             Port = Itoa (asInt (entryField val ''port'')),
             EventHost = asString (entryField val ''event_host''),
             EventPort = Itoa (asInt (entryField val ''event_port'')),
             TLSCertificate = Replace (asString (index t ''certificate'')) token (Getenv env ''GOPATH'') (- 1),
             TLSServerHostOverride = asString (index t ''serverhostoverride'') \<rparr>)"
  using assms(3,4) by (simp add: peerEntry_def extractFields_eq [OF assms(1,2)] checkPeer_eq)

text \<open>Unfolding everything on a concrete store.\<close>

lemmas peer_eval = GetPeersConfig_def sampleStore_def peerEntry_def extractFields_def index_def
  checkPeer_def Let_def Itoa_def formatNat.simps digitTable_def Replace_def token_def
  replaceFrom.simps(2) Getenv_def IsTLSEnabled_def

section \<open>Required fields of a peer entry\<close>

text \<open>
  C1. The claim: an entry in which host, port, event_host or event_port is missing or
  empty makes \<^verbatim>\<open>GetPeersConfig\<close> panic with the entry's label, in either map
  shape. For the host and the event host the code does so (\<open>missing_host_panics\<close>).
  For the two ports it does not: the checks \<^verbatim>\<open>p.Port == ""\<close> and
  \<^verbatim>\<open>p.EventPort == ""\<close> look at the decimal form of the integer, which is
  \<open>0\<close> for a missing port and never empty (\<open>port_checks_never_fire\<close>). The theorem
  runs the code on an entry without \<^verbatim>\<open>port\<close> in the first shape and on an entry
  without \<^verbatim>\<open>event_port\<close> in the second: both calls return a record, with port
  \<open>0\<close>, instead of panicking.
\<close>

theorem missing_port_is_not_fatal:
  "GetPeersConfig (sampleStore False [] [(''peer0'', peerNoPort)]) Map.empty =
     Returned [\<lparr> Host = ''h0'', Port = ''0'', EventHost = ''e0'', EventPort = ''7053'',
                 TLSCertificate = ''ca.pem'', TLSServerHostOverride = [] \<rparr>] \<and>
   GetPeersConfig (sampleStore False [] [(''peer1'', peerNoEventPortIface)]) Map.empty =
     Returned [\<lparr> Host = ''h0'', Port = ''7051'', EventHost = ''e0'', EventPort = ''0'',
                 TLSCertificate = ''ca.pem'', TLSServerHostOverride = [] \<rparr>]"
  by (simp add: peer_eval peerNoPort_def peerNoEventPortIface_def)

section \<open>Leniency of the field extraction\<close>

text \<open>
  C2. The claim: reading the fields of an entry never panics, a missing or wrong-typed
  field giving the zero value, also when the \<^verbatim>\<open>tls\<close> key is absent or is not a
  map of the expected type. The four plain fields and the two fields under
  \<^verbatim>\<open>tls\<close> are read that way (\<open>extractFields_eq\<close>), but the \<^verbatim>\<open>tls\<close>
  value itself is asserted with the single-value form. The theorem runs the code on an
  entry without \<^verbatim>\<open>tls\<close> and on one whose \<^verbatim>\<open>tls\<close> value is a
  \<^verbatim>\<open>map[interface{}]interface{}\<close>: the extraction panics, and so does
  \<^verbatim>\<open>GetPeersConfig\<close>, with TLS disabled.
\<close>

theorem missing_tls_panics:
  "extractFields peerNoTLS = Panicked TypeAssertion \<and>
   GetPeersConfig (sampleStore False [] [(''peer0'', peerNoTLS)]) Map.empty = Panicked TypeAssertion \<and>
   extractFields peerNestedIfaceTLS = Panicked TypeAssertion \<and>
   GetPeersConfig (sampleStore False [] [(''peer0'', peerNestedIfaceTLS)]) Map.empty
     = Panicked TypeAssertion"
  by (simp add: peer_eval peerNoTLS_def peerNestedIfaceTLS_def)

section \<open>The certificate of a peer and the TLS flag\<close>

text \<open>
  When the \<^verbatim>\<open>tls\<close> value of an entry is a \<^verbatim>\<open>map[string]interface{}\<close>,
  the certificate is required exactly when TLS is enabled: for an entry in either shape
  whose host and event host are not empty and whose \<^verbatim>\<open>tls\<close> map holds no
  certificate or an empty one, \<^verbatim>\<open>GetPeersConfig\<close> panics with
  \<^verbatim>\<open>tls.certificate not exist or empty for\<close> and the entry's label when TLS is
  enabled and the entries visited before are extracted; with TLS disabled, and every
  other entry extracted, it returns one record per entry, the one of this entry with an
  empty certificate path.
\<close>

lemma peersLoop_all:
  "\<forall>kv \<in> set kvs. \<not> isPanic (peerEntry v env kv) \<Longrightarrow>
   \<exists>qs. peersLoop v env kvs acc = Returned (acc @ qs) \<and>
        list_all2 (\<lambda>kv p. peerEntry v env kv = Returned p) kvs qs"
proof (induction kvs arbitrary: acc)
  case Nil
  then show ?case by simp
next
  case (Cons kv kvs)
  then obtain p where p: "peerEntry v env kv = Returned p"
    by (cases "peerEntry v env kv") auto
  from Cons.IH [of "acc @ [p]"] Cons.prems obtain qs where
    "peersLoop v env kvs (acc @ [p]) = Returned ((acc @ [p]) @ qs)"
    "list_all2 (\<lambda>kv p. peerEntry v env kv = Returned p) kvs qs"
    by auto
  then have "peersLoop v env (kv # kvs) acc = Returned (acc @ (p # qs)) \<and>
      list_all2 (\<lambda>kv p. peerEntry v env kv = Returned p) (kv # kvs) (p # qs)"
    using p by simp
  then show ?case by blast
qed

lemma certificate_check_with_tls_map:
  assumes "supportedShape val"
    and "asString (entryField val ''host'') \<noteq> []"
    and "asString (entryField val ''event_host'') \<noteq> []"
    and "entryField val ''tls'' = VStrMap t"
    and "asString (index t ''certificate'') = []"
    and "GetStringMap v ''client.peers'' = before @ (key, val) # rest"
    and "\<forall>kv \<in> set before. \<not> isPanic (peerEntry v env kv)"
  shows "(IsTLSEnabled v \<longrightarrow>
            GetPeersConfig v env =
              Panicked (PanicMsg (''tls.certificate not exist or empty for '' @ key))) \<and>
         (\<not> IsTLSEnabled v \<and> (\<forall>kv \<in> set rest. \<not> isPanic (peerEntry v env kv)) \<longrightarrow>
            (\<exists>ps. GetPeersConfig v env = Returned ps \<and>
               length ps = length (GetStringMap v ''client.peers'') \<and>
               ps ! length before =
                 \<lparr> Host = asString (entryField val ''host''),
                   Port = Itoa (asInt (entryField val ''port'')),
                   EventHost = asString (entryField val ''event_host''),
                   EventPort = Itoa (asInt (entryField val ''event_port'')),
                   TLSCertificate = [],
                   TLSServerHostOverride = asString (index t ''serverhostoverride'') \<rparr>))"
proof -
  note eq = peerEntry_eq [OF assms(1,4,2,3), of v env key]
  have on: "GetPeersConfig v env = Panicked (PanicMsg (''tls.certificate not exist or empty for '' @ key))"
    if "IsTLSEnabled v"
    using that eq assms(5) peersLoop_panic [OF assms(7), of "(key, val)" _ rest "[]"]
    by (simp add: GetPeersConfig_def assms(6))
  have empty: "Replace [] token (Getenv env ''GOPATH'') (- 1) = []"
    by (simp add: Replace_def)
  let ?p = "\<lparr> Host = asString (entryField val ''host''),
                   Port = Itoa (asInt (entryField val ''port'')),
                   EventHost = asString (entryField val ''event_host''),
                   EventPort = Itoa (asInt (entryField val ''event_port'')),
                   TLSCertificate = [],
                   TLSServerHostOverride = asString (index t ''serverhostoverride'') \<rparr>"
  have off: "\<exists>ps. GetPeersConfig v env = Returned ps \<and>
               length ps = length (GetStringMap v ''client.peers'') \<and> ps ! length before = ?p"
    if "\<not> IsTLSEnabled v" and "\<forall>kv \<in> set rest. \<not> isPanic (peerEntry v env kv)"
  proof -
    have this_one: "peerEntry v env (key, val) = Returned ?p"
      using that(1) eq assms(5) empty by simp
    then have "\<forall>kv \<in> set (before @ (key, val) # rest). \<not> isPanic (peerEntry v env kv)"
      using assms(7) that(2) by auto
    from peersLoop_all [OF this, of "[]"] obtain qs where
      qs: "GetPeersConfig v env = Returned qs"
        "list_all2 (\<lambda>kv p. peerEntry v env kv = Returned p) (before @ (key, val) # rest) qs"
      by (auto simp: GetPeersConfig_def assms(6))
    have len: "length qs = length (before @ (key, val) # rest)"
      using list_all2_lengthD [OF qs(2)] by simp
    have "peerEntry v env ((before @ (key, val) # rest) ! length before) = Returned (qs ! length before)"
      using qs(2) by (rule list_all2_nthD) simp
    with this_one have "qs ! length before = ?p" by simp
    with qs(1) len show ?thesis by (simp add: assms(6))
  qed
  from on off show ?thesis by blast
qed

text \<open>
  C4. The claim: for every entry whose four required fields are not empty and whose
  certificate is empty, \<^verbatim>\<open>GetPeersConfig\<close> panics with the entry's label when
  TLS is enabled, and the extraction succeeds when TLS is disabled. An entry without a
  \<^verbatim>\<open>tls\<close> section is such an entry: its four fields are there and it
  configures no certificate. The code never reaches the certificate check on it: the
  single-value assertion on the \<^verbatim>\<open>tls\<close> value panics first, whatever the
  flag. The theorem runs the code on such an entry in the second shape with TLS disabled
  and enabled, and on one in the first shape with TLS enabled: every call ends in the
  type assertion panic, which carries no label.
\<close>

theorem certificate_rule_not_reached_without_tls:
  "asString (entryField peerNoTLSIface ''host'') = ''h1'' \<and>
   entryField peerNoTLSIface ''port'' = VInt 8051 \<and>
   asString (entryField peerNoTLSIface ''event_host'') = ''e1'' \<and>
   entryField peerNoTLSIface ''event_port'' = VInt 8053 \<and>
   configuredCertificate peerNoTLSIface = [] \<and>
   GetPeersConfig (sampleStore False [] [(''peer1'', peerNoTLSIface)]) Map.empty
     = Panicked TypeAssertion \<and>
   GetPeersConfig (sampleStore True [] [(''peer1'', peerNoTLSIface)]) Map.empty
     = Panicked TypeAssertion \<and>
   GetPeersConfig (sampleStore True [] [(''peer0'', peerNoTLS)]) Map.empty
     = Panicked TypeAssertion"
  by (simp add: peer_eval peerNoTLS_def peerNoTLSIface_def entryField_def
      configuredCertificate_def)

section \<open>The certificate path and the build path token\<close>

text \<open>What a returned record holds, in terms of the entry it comes from.\<close>

lemma peerEntry_Returned:
  assumes "peerEntry v env kv = Returned p"
  shows "Port p = Itoa (asInt (entryField (snd kv) ''port'')) \<and>
         EventPort p = Itoa (asInt (entryField (snd kv) ''event_port'')) \<and>
         TLSCertificate p =
           Replace (configuredCertificate (snd kv)) token (Getenv env ''GOPATH'') (- 1)"
proof -
  obtain f where f: "extractFields (snd kv) = Returned f"
    using assms by (cases "extractFields (snd kv)") (simp_all add: peerEntry_def)
  then obtain t where sh: "supportedShape (snd kv)" and t: "entryField (snd kv) ''tls'' = VStrMap t"
    using extractFields_Returned by blast
  from assms f have "checkPeer v env (fst kv) f = Returned p"
    by (simp add: peerEntry_def)
  then show ?thesis
    using f t unfolding extractFields_eq [OF sh t] checkPeer_eq configuredCertificate_def
    by (auto split: if_splits)
qed


text \<open>
  C8. The claim: a certificate path that contains the token has it replaced exactly once
  by the value of \<^verbatim>\<open>GOPATH\<close>. Read as one replacement per path
  (\<^verbatim>\<open>strings.Replace\<close> with the limit 1), this fails on a path with two
  occurrences: the code asks for every occurrence (the limit is \<^verbatim>\<open>-1\<close>), so
  with \<^verbatim>\<open>GOPATH=/opt/build\<close> the orderer path \<^verbatim>\<open>$GOPATH/a/$GOPATH\<close>
  resolves to \<^verbatim>\<open>/opt/build/a//opt/build\<close>.
\<close>

theorem placeholder_replaced_twice:
  "GetOrdererTLSCertificate (sampleStore False ''$GOPATH/a/$GOPATH'' []) buildEnv
     = ''/opt/build/a//opt/build'' \<and>
   Replace ''$GOPATH/a/$GOPATH'' token ''/opt/build'' 1 = ''/opt/build/a/$GOPATH'' \<and>
   GetOrdererTLSCertificate (sampleStore False ''$GOPATH/a/$GOPATH'' []) buildEnv
     \<noteq> Replace ''$GOPATH/a/$GOPATH'' token ''/opt/build'' 1"
  by (simp add: GetOrdererTLSCertificate_def sampleStore_def buildEnv_def Getenv_def Replace_def
      token_def replaceFrom.simps(2))

text \<open>
  C8, as amended. Every occurrence of the token in the configured path, found from left to
  right without overlap, is replaced by the value of \<^verbatim>\<open>GOPATH\<close>, the empty
  string when the variable is unset. Stated for a path \<open>a @ token @ b\<close> whose first
  occurrence of the token is the one shown: the orderer path, and the path of every record
  \<^verbatim>\<open>GetPeersConfig\<close> returns (each record is the result of the loop body on its
  entry), resolve to \<open>a\<close>, the value, and the resolved \<open>b\<close>; a \<open>b\<close> without
  the token stays as it is. So a path with one occurrence becomes
  \<open>a @ ''/opt/build'' @ b\<close> when the variable is \<^verbatim>\<open>/opt/build\<close> and
  \<open>a @ b\<close> when it is unset.
\<close>

theorem placeholder_substitution:
  assumes "\<not> Contains (a @ butlast token) token"
  shows "(GetString v ''client.orderer.tls.certificate'' = a @ token @ b \<longrightarrow>
            GetOrdererTLSCertificate v env =
              a @ Getenv env ''GOPATH'' @ Replace b token (Getenv env ''GOPATH'') (- 1)) \<and>
         (GetPeersConfig v env = Returned ps \<longrightarrow>
            list_all2 (\<lambda>kv p. peerEntry v env kv = Returned p) (GetStringMap v ''client.peers'') ps) \<and>
         (peerEntry v env (key, val) = Returned p \<and> configuredCertificate val = a @ token @ b \<longrightarrow>
            TLSCertificate p =
              a @ Getenv env ''GOPATH'' @ Replace b token (Getenv env ''GOPATH'') (- 1)) \<and>
         (\<not> Contains b token \<longrightarrow> Replace b token (Getenv env ''GOPATH'') (- 1) = b) \<and>
         (env ''GOPATH'' = Some ''/opt/build'' \<longrightarrow> Getenv env ''GOPATH'' = ''/opt/build'') \<and>
         (env ''GOPATH'' = None \<longrightarrow> Getenv env ''GOPATH'' = [])"
proof -
  note first = Replace_all_first [OF assms, of b "Getenv env ''GOPATH''"]
  have "GetOrdererTLSCertificate v env =
          a @ Getenv env ''GOPATH'' @ Replace b token (Getenv env ''GOPATH'') (- 1)"
    if "GetString v ''client.orderer.tls.certificate'' = a @ token @ b"
    using that first by (simp add: GetOrdererTLSCertificate_def)
  moreover have "TLSCertificate p =
          a @ Getenv env ''GOPATH'' @ Replace b token (Getenv env ''GOPATH'') (- 1)"
    if "peerEntry v env (key, val) = Returned p" and "configuredCertificate val = a @ token @ b"
    using peerEntry_Returned [OF that(1)] that(2) first by simp
  moreover have "Replace b token (Getenv env ''GOPATH'') (- 1) = b" if "\<not> Contains b token"
    using that by (rule Replace_all_absent)
  ultimately show ?thesis
    using GetPeersConfig_Returned [of v env ps] by (simp add: Getenv_def)
qed

theorem placeholder_substitution_witness:
  "GetOrdererTLSCertificate (sampleStore False ''file:$GOPATH/ca.pem'' [(''peer0'', peerComplete)]) buildEnv
     = ''file:/opt/build/ca.pem'' \<and>
   GetOrdererTLSCertificate (sampleStore False ''file:$GOPATH/ca.pem'' [(''peer0'', peerComplete)]) Map.empty
     = ''file:/ca.pem'' \<and>
   TLSCertificate \<lparr> Host = ''h0'', Port = ''7051'', EventHost = ''e0'', EventPort = ''7053'',
       TLSCertificate = ''/opt/build/tls/ca.pem'', TLSServerHostOverride = ''peer0'' \<rparr>
     = [] @ ''/opt/build'' @ ''/tls/ca.pem''"
proof -
  let ?v = "sampleStore False ''file:$GOPATH/ca.pem'' [(''peer0'', peerComplete)]"
  let ?p = "\<lparr> Host = ''h0'', Port = ''7051'', EventHost = ''e0'', EventPort = ''7053'',
       TLSCertificate = ''/opt/build/tls/ca.pem'', TLSServerHostOverride = ''peer0'' \<rparr>"
  have h: "\<not> Contains (''file:'' @ butlast token) token"
    and h0: "\<not> Contains ([] @ butlast token) token"
    by (simp_all add: token_def)
  have g: "GetString ?v ''client.orderer.tls.certificate'' = ''file:'' @ token @ ''/ca.pem''"
    by (simp add: sampleStore_def token_def)
  have n: "\<not> Contains ''/ca.pem'' token" and n0: "\<not> Contains ''/tls/ca.pem'' token"
    by (simp_all add: token_def)
  have e: "buildEnv ''GOPATH'' = Some ''/opt/build''"
    and e0: "Map.empty ''GOPATH'' = (None :: string option)"
    by (simp_all add: buildEnv_def)
  have r: "GetPeersConfig ?v buildEnv = Returned [?p]"
    and q: "peerEntry ?v buildEnv (''peer0'', peerComplete) = Returned ?p"
    by (simp_all add: peer_eval peerComplete_def buildEnv_def)
  have c: "configuredCertificate peerComplete = [] @ token @ ''/tls/ca.pem''"
    by (simp add: configuredCertificate_def entryField_def index_def peerComplete_def token_def)
  note A = placeholder_substitution [OF h, where v = ?v and b = "''/ca.pem''" and env = buildEnv
      and ps = "[?p]" and key = "''peer0''" and val = peerComplete and p = ?p]
  note B = placeholder_substitution [OF h, where v = ?v and b = "''/ca.pem''" and env = Map.empty
      and ps = "[?p]" and key = "''peer0''" and val = peerComplete and p = ?p]
  note C = placeholder_substitution [OF h0, where v = ?v and b = "''/tls/ca.pem''" and env = buildEnv
      and ps = "[?p]" and key = "''peer0''" and val = peerComplete and p = ?p]
  note rest = conjunct2 [THEN conjunct2, THEN conjunct2]
  note A1 = A [THEN conjunct1, THEN mp, OF g]
  note A4 = A [THEN rest, THEN conjunct1, THEN mp, OF n]
  note A5 = A [THEN rest, THEN conjunct2, THEN conjunct1, THEN mp, OF e]
  note B1 = B [THEN conjunct1, THEN mp, OF g]
  note B4 = B [THEN rest, THEN conjunct1, THEN mp, OF n]
  note B6 = B [THEN rest, THEN conjunct2, THEN conjunct2, THEN mp, OF e0]
  note C3 = C [THEN conjunct2, THEN conjunct2, THEN conjunct1, THEN mp, OF conjI [OF q c]]
  note C4 = C [THEN rest, THEN conjunct1, THEN mp, OF n0]
  have "GetOrdererTLSCertificate ?v buildEnv = ''file:/opt/build/ca.pem''"
    by (simp add: A1 A5 A4 [unfolded A5])
  moreover have "GetOrdererTLSCertificate ?v Map.empty = ''file:/ca.pem''"
    by (simp add: B1 B6 B4 [unfolded B6])
  moreover have "TLSCertificate ?p = [] @ ''/opt/build'' @ ''/tls/ca.pem''"
    by (simp add: C3 A5 C4 [unfolded A5])
  ultimately show ?thesis by (intro conjI)
qed

section \<open>Ports in decimal form, and what is left of the token\<close>


text \<open>
  Values of the variable as they are usually set do not form the token; the empty value,
  a value that completes the token from the text in front of it, one that starts it for
  the text behind, and the token itself do.
\<close>

lemma usual_values_are_safe:
  "\<not> createsToken ''/opt/build'' \<and> \<not> createsToken ''/home/Alice/go'' \<and>
   \<not> createsToken ''/srv/GOPATH'' \<and> createsToken [] \<and> createsToken ''PATH'' \<and>
   createsToken ''go/$GO'' \<and> createsToken ''$GOPATH''"
  by (simp add: createsToken_def comparable_def token_def)




section \<open>A settings file that cannot be read\<close>

text \<open>
  C3. The claim: with a non-empty path and a settings file that cannot be parsed, the
  failure is fatal, the process aborts and nothing is returned to the caller. The code
  returns instead: on the sample library, whose reader fails for every file but
  \<^verbatim>\<open>config.yaml\<close>, the call returns an error value and does not panic.
\<close>

theorem unparsable_file_returns_error:
  "fst (InitConfig sampleLibrary ''broken.yaml'' sampleSdk)
     = Returned (Some ''Fatal error config file: cannot parse'') \<and>
   \<not> isPanic (fst (InitConfig sampleLibrary ''broken.yaml'' sampleSdk))"
  by (simp add: InitConfig_def readConfigFile_def sampleLibrary_def sampleSdk_def sampleStore_def)

text \<open>
  C3, as amended. With a non-empty path and a settings file the store fails to read,
  \<^verbatim>\<open>InitConfig\<close> does not panic: it returns to its caller the error
  \<^verbatim>\<open>Fatal error config file:\<close> followed by the cause, before the logging level is
  looked at (the level of the module is as it was and nothing is logged). Aborting is the
  caller's decision.
\<close>

theorem InitConfig_read_failure:
  assumes "file \<noteq> []"
    and "fst (ReadInConfig lib ((myViper st)\<lparr> configFile := file \<rparr>)) = Some err"
  shows "fst (InitConfig lib file st) = Returned (Some (''Fatal error config file: '' @ err)) \<and>
         \<not> isPanic (fst (InitConfig lib file st)) \<and>
         moduleLevel (snd (InitConfig lib file st)) = moduleLevel st \<and>
         logged (snd (InitConfig lib file st)) = logged st"
proof -
  obtain v' where "ReadInConfig lib ((myViper st)\<lparr> configFile := file \<rparr>) = (Some err, v')"
    using assms(2) by (cases "ReadInConfig lib ((myViper st)\<lparr> configFile := file \<rparr>)") simp
  then have "readConfigFile lib file st =
      (Some (''Fatal error config file: '' @ err), st\<lparr> myViper := v' \<rparr>)"
    using assms(1) by (simp add: readConfigFile_def)
  then show ?thesis
    by (simp add: InitConfig_def)
qed

theorem InitConfig_read_failure_witness:
  "fst (InitConfig sampleLibrary ''broken.yaml'' sampleSdk)
     = Returned (Some (''Fatal error config file: '' @ ''cannot parse'')) \<and>
   moduleLevel (snd (InitConfig sampleLibrary ''broken.yaml'' sampleSdk)) = None"
proof -
  have h1: "''broken.yaml'' \<noteq> []" by simp
  have h2: "fst (ReadInConfig sampleLibrary ((myViper sampleSdk)\<lparr> configFile := ''broken.yaml'' \<rparr>))
      = Some ''cannot parse''"
    by (simp add: sampleLibrary_def)
  have m: "moduleLevel sampleSdk = None" by (simp add: sampleSdk_def)
  note T = InitConfig_read_failure [OF h1 h2]
  show ?thesis
    by (intro conjI T [THEN conjunct1]
        T [THEN conjunct2, THEN conjunct2, THEN conjunct1, unfolded m])
qed

section \<open>Building the trust pool\<close>

text \<open>
  C5. For a non-empty path: a file that cannot be read makes \<^verbatim>\<open>GetTLSCACertPool\<close>
  return a nil pool and the error of the read; content in which no PEM block is found makes
  it panic (the nil block is dereferenced); a block that does not parse as a certificate
  makes it panic with the parse error. In the last two cases nothing is returned.
\<close>

theorem trust_anchor_failures:
  assumes "certPath \<noteq> []"
  shows "(ReadFile fs certPath = Inl err \<longrightarrow>
            GetTLSCACertPool lib fs certPath = Returned (None, Some err)) \<and>
         (ReadFile fs certPath = Inr rawData \<and> fst (Decode lib rawData) = None \<longrightarrow>
            GetTLSCACertPool lib fs certPath = Panicked NilDereference) \<and>
         (ReadFile fs certPath = Inr rawData \<and> fst (Decode lib rawData) = Some block \<and>
          ParseCertificate lib (Bytes block) = Inl err \<longrightarrow>
            GetTLSCACertPool lib fs certPath = Panicked (PanicErr err))"
  using assms by (simp add: GetTLSCACertPool_def loadCAKey_def)

theorem trust_anchor_failures_witness:
  "GetTLSCACertPool sampleLibrary sampleFiles ''missing.pem'' = Returned (None, Some ''no such file'') \<and>
   GetTLSCACertPool sampleLibrary sampleFiles ''corrupt.pem'' = Panicked NilDereference \<and>
   GetTLSCACertPool sampleLibrary sampleFiles ''empty.pem'' = Panicked (PanicErr ''malformed certificate'')"
proof -
  let ?b = "\<lparr> blockType = ''CERTIFICATE'', Bytes = [] \<rparr>"
  have n: "''missing.pem'' \<noteq> []" "''corrupt.pem'' \<noteq> []" "''empty.pem'' \<noteq> []"
    by simp_all
  have a: "ReadFile sampleFiles ''missing.pem'' = Inl ''no such file''"
    by (simp add: sampleFiles_def)
  have b: "ReadFile sampleFiles ''corrupt.pem'' = Inr ''garbage'' \<and>
           fst (Decode sampleLibrary ''garbage'') = None"
    by (simp add: sampleFiles_def sampleLibrary_def)
  have c: "ReadFile sampleFiles ''empty.pem'' = Inr ''PEM:'' \<and>
           fst (Decode sampleLibrary ''PEM:'') = Some ?b \<and>
           ParseCertificate sampleLibrary (Bytes ?b) = Inl ''malformed certificate''"
    by (simp add: sampleFiles_def sampleLibrary_def)
  note A = trust_anchor_failures [OF n(1), THEN conjunct1, THEN mp, OF a]
  note B = trust_anchor_failures [OF n(2), THEN conjunct2, THEN conjunct1, THEN mp, OF b]
  note C = trust_anchor_failures [OF n(3), THEN conjunct2, THEN conjunct2, THEN mp, OF c]
  show ?thesis by (intro conjI A B C)
qed

text \<open>
  C6. With an empty path \<^verbatim>\<open>GetTLSCACertPool\<close> returns a pool without
  certificates and no error; with the path of a readable file whose first PEM block parses
  as a certificate it returns the pool holding exactly that certificate, and no error.
\<close>

theorem trust_pool_size:
  "GetTLSCACertPool lib fs [] = Returned (Some [], None) \<and>
   (certPath \<noteq> [] \<and> ReadFile fs certPath = Inr rawData \<and>
    fst (Decode lib rawData) = Some block \<and> ParseCertificate lib (Bytes block) = Inr cert \<longrightarrow>
      GetTLSCACertPool lib fs certPath = Returned (Some [cert], None))"
  by (simp add: GetTLSCACertPool_def loadCAKey_def NewCertPool_def AddCert_def)

theorem trust_pool_size_witness:
  "GetTLSCACertPool sampleLibrary sampleFiles ''ca.pem''
     = Returned (Some [\<lparr> Raw = ''der'' \<rparr>], None)"
proof -
  let ?b = "\<lparr> blockType = ''CERTIFICATE'', Bytes = ''der'' \<rparr>"
  have h: "''ca.pem'' \<noteq> [] \<and> ReadFile sampleFiles ''ca.pem'' = Inr ''PEM:der'' \<and>
           fst (Decode sampleLibrary ''PEM:der'') = Some ?b \<and>
           ParseCertificate sampleLibrary (Bytes ?b) = Inr \<lparr> Raw = ''der'' \<rparr>"
    by (simp add: sampleFiles_def sampleLibrary_def)
  show ?thesis
    by (rule trust_pool_size [THEN conjunct2, THEN mp, OF h])
qed

section \<open>Writing the derived file\<close>

text \<open>
  C7. When the sub-document unmarshals, the descriptor serialises and the write to the
  fixed path meets no error, \<^verbatim>\<open>GetFabricCAClientPath\<close> returns the fixed path
  \<^verbatim>\<open>/tmp/client-config.json\<close> with no error and leaves the serialised bytes at
  that path, every other file as it was. A second call right after it returns the same
  and leaves the same file system, so the bytes at the path are the same. And whatever
  file system a later call with the same settings starts from, when it succeeds it
  returns the fixed path and leaves these same bytes there.
\<close>

theorem derived_file_idempotent:
  assumes "UnmarshalKey v ''client.fabricCA'' = Inr conf"
    and "Marshal lib conf = Inr json"
    and "writeFault fs ''/tmp/client-config.json'' = None"
  shows "GetFabricCAClientPath lib v fs =
           ((''/tmp/client-config.json'', None),
            fs\<lparr> ReadFile := (ReadFile fs)(''/tmp/client-config.json'' := Inr json) \<rparr>) \<and>
         ReadFile (snd (GetFabricCAClientPath lib v fs)) ''/tmp/client-config.json'' = Inr json \<and>
         GetFabricCAClientPath lib v (snd (GetFabricCAClientPath lib v fs)) =
           GetFabricCAClientPath lib v fs \<and>
         (GetFabricCAClientPath lib v fs' = ((path', None), fs'') \<longrightarrow>
            path' = ''/tmp/client-config.json'' \<and>
            ReadFile fs'' ''/tmp/client-config.json'' = Inr json)"
proof -
  let ?fs1 = "fs\<lparr> ReadFile := (ReadFile fs)(''/tmp/client-config.json'' := Inr json) \<rparr>"
  have first: "GetFabricCAClientPath lib v fs = ((''/tmp/client-config.json'', None), ?fs1)"
    using assms by (simp add: GetFabricCAClientPath_def WriteFile_def filePath_def)
  have "writeFault ?fs1 ''/tmp/client-config.json'' = None"
    using assms(3) by simp
  then have second: "GetFabricCAClientPath lib v ?fs1 = ((''/tmp/client-config.json'', None), ?fs1)"
    using assms(1,2) by (simp add: GetFabricCAClientPath_def WriteFile_def filePath_def)
  have other: "path' = ''/tmp/client-config.json'' \<and>
      ReadFile fs'' ''/tmp/client-config.json'' = Inr json"
    if "GetFabricCAClientPath lib v fs' = ((path', None), fs'')"
    using that assms(1,2)
    by (auto simp: GetFabricCAClientPath_def WriteFile_def filePath_def split: option.splits)
  have content: "ReadFile (snd (GetFabricCAClientPath lib v fs)) ''/tmp/client-config.json'' = Inr json"
    by (simp add: first)
  have again: "GetFabricCAClientPath lib v (snd (GetFabricCAClientPath lib v fs)) =
      GetFabricCAClientPath lib v fs"
    by (simp add: first second)
  from other have later: "GetFabricCAClientPath lib v fs' = ((path', None), fs'') \<longrightarrow>
      path' = ''/tmp/client-config.json'' \<and> ReadFile fs'' ''/tmp/client-config.json'' = Inr json"
    by blast
  show ?thesis
    by (intro conjI first content again later)
qed

theorem derived_file_idempotent_witness:
  "GetFabricCAClientPath sampleLibrary (sampleStore False [] []) sampleFiles =
     ((''/tmp/client-config.json'', None),
      sampleFiles\<lparr> ReadFile := (ReadFile sampleFiles)
        (''/tmp/client-config.json'' := Inr ''serverURL=https://ca:7054'') \<rparr>) \<and>
   ReadFile (snd (GetFabricCAClientPath sampleLibrary (sampleStore False [] []) sampleFiles))
     ''/tmp/client-config.json'' = Inr ''serverURL=https://ca:7054'' \<and>
   GetFabricCAClientPath sampleLibrary (sampleStore False [] [])
       (snd (GetFabricCAClientPath sampleLibrary (sampleStore False [] []) sampleFiles)) =
     GetFabricCAClientPath sampleLibrary (sampleStore False [] []) sampleFiles"
proof -
  let ?c = "\<lparr> ServerURL = ''https://ca:7054'', Certfiles = Some [''a.pem''],
                     Client = \<lparr> Keyfile = ''k.pem'', Certfile = ''c.pem'' \<rparr> \<rparr>"
  have a: "UnmarshalKey (sampleStore False [] []) ''client.fabricCA'' = Inr ?c"
    by (simp add: sampleStore_def)
  have b: "Marshal sampleLibrary ?c = Inr ''serverURL=https://ca:7054''"
    by (simp add: sampleLibrary_def)
  have c: "writeFault sampleFiles ''/tmp/client-config.json'' = None"
    by (simp add: sampleFiles_def filePath_def)
  note T = derived_file_idempotent [OF a b c]
  show ?thesis
    by (intro conjI T [THEN conjunct1] T [THEN conjunct2, THEN conjunct1]
        T [THEN conjunct2, THEN conjunct2, THEN conjunct1])
qed

text \<open>
  C9. When the write fails, \<^verbatim>\<open>GetFabricCAClientPath\<close> returns the fixed path
  together with the error of the write; when the sub-document does not unmarshal or the
  descriptor does not serialise, it returns the empty path with that error; and the
  returned path is empty in these two cases only.
\<close>

theorem write_failure_returns_path:
  "(UnmarshalKey v ''client.fabricCA'' = Inr conf \<and> Marshal lib conf = Inr json \<and>
    writeFault fs filePath = Some err \<longrightarrow>
      fst (GetFabricCAClientPath lib v fs) = (''/tmp/client-config.json'', Some err)) \<and>
   (UnmarshalKey v ''client.fabricCA'' = Inl err \<longrightarrow>
      fst (GetFabricCAClientPath lib v fs) = ([], Some err)) \<and>
   (UnmarshalKey v ''client.fabricCA'' = Inr conf \<and> Marshal lib conf = Inl err \<longrightarrow>
      fst (GetFabricCAClientPath lib v fs) = ([], Some err)) \<and>
   (fst (fst (GetFabricCAClientPath lib v fs)) = [] \<longrightarrow>
      (\<exists>e. UnmarshalKey v ''client.fabricCA'' = Inl e) \<or>
      (\<exists>c e. UnmarshalKey v ''client.fabricCA'' = Inr c \<and> Marshal lib c = Inl e))"
  by (auto simp: GetFabricCAClientPath_def WriteFile_def filePath_def
      split: sum.splits option.splits)

theorem write_failure_returns_path_witness:
  "fst (GetFabricCAClientPath sampleLibrary (sampleStore False [] []) readOnlyFiles)
     = (''/tmp/client-config.json'', Some ''read-only file system'') \<and>
   fst (GetFabricCAClientPath sampleLibrary unparsedStore sampleFiles)
     = ([], Some ''expected a map'') \<and>
   fst (GetFabricCAClientPath failingMarshal (sampleStore False [] []) sampleFiles)
     = ([], Some ''unsupported value'')"
proof -
  let ?v = "sampleStore False [] []"
  let ?c = "\<lparr> ServerURL = ''https://ca:7054'', Certfiles = Some [''a.pem''],
                     Client = \<lparr> Keyfile = ''k.pem'', Certfile = ''c.pem'' \<rparr> \<rparr>"
  have a: "UnmarshalKey ?v ''client.fabricCA'' = Inr ?c \<and>
           Marshal sampleLibrary ?c = Inr ''serverURL=https://ca:7054'' \<and>
           writeFault readOnlyFiles filePath = Some ''read-only file system''"
    by (simp add: sampleStore_def sampleLibrary_def readOnlyFiles_def)
  have b: "UnmarshalKey unparsedStore ''client.fabricCA'' = Inl ''expected a map''"
    by (simp add: unparsedStore_def)
  have c: "UnmarshalKey ?v ''client.fabricCA'' = Inr ?c \<and>
           Marshal failingMarshal ?c = Inl ''unsupported value''"
    by (simp add: sampleStore_def failingMarshal_def)
  note A = write_failure_returns_path [THEN conjunct1, THEN mp, OF a]
  note B = write_failure_returns_path [THEN conjunct2, THEN conjunct1, THEN mp, OF b]
  note C = write_failure_returns_path [THEN conjunct2, THEN conjunct2, THEN conjunct1, THEN mp, OF c]
  show ?thesis by (intro conjI A B C)
qed

end
